theory Spec2Isabelle
  imports Complex_Main "HOL-Library.Word"
begin

section \<open>Data of ocr.py\<close>

text \<open>
  A pixel of a decoded image is one byte. An image is its mode (\<open>''L''\<close> for 8-bit
  grayscale, \<open>''1''\<close> for two-level) and its rows of pixels. Exceptions are values: every
  fallible step returns \<open>error + 'a\<close>, with \<open>Inl\<close> for the exception raised.
\<close>

type_synonym byte = "8 word"

datatype error =
  DecodeError | UtilsError | ModelLoadError | InferenceError | IndexError | ValueError | TypeError

record image =
  mode :: string
  pixels :: "byte list list"

text \<open>
  The two recognizer classes. \<open>LegacyRecognizer\<close> has the fields \<open>_clr\<close> and
  \<open>_table\<close>, \<open>NNRecognizer\<close> the fields \<open>_table\<close> and \<open>_sess\<close>; the session type
  \<open>'m\<close> is whatever the inference runtime loads from the model file.
\<close>

record 'm legacy_recognizer =
  clr :: 'm
  legacy_table :: "int list"

record 'm nn_recognizer =
  nn_table :: "int list"
  sess :: 'm

text \<open>
  What a call can be observed to do besides returning: it decodes bytes and it invokes the
  model. A world is the recognizer object together with the trace of these events so far;
  \<open>recognize\<close> takes a world and returns the new one.
\<close>

datatype 'x event = Decode "byte list" | Run 'x

record ('r, 'x) world =
  self :: 'r
  trace :: "'x event list"

text \<open>
  The collaborators that ocr.py imports and does not define are parameters: the imaging
  library (\<open>Image.open\<close>, \<open>Image.convert\<close>), the helpers of \<open>utils\<close> (\<open>h_split\<close>,
  \<open>v_split\<close>, \<open>normalize\<close>), the runtime's model loader and \<open>InferenceSession.run\<close>, and
  Python's \<open>str\<close> on the label type of the model. Each may raise. The runtime's \<open>run\<close>
  stands for the whole call \<open>session.run(None, {session.get_inputs()[0].name: x})\<close>: a
  function of the loaded session and the input array that gives the list of output arrays.
\<close>

record pil =
  image_open :: "byte list \<Rightarrow> error + image"
  convert :: "image \<Rightarrow> string \<Rightarrow> error + image"

record utils =
  h_split :: "image \<Rightarrow> error + image list"
  v_split :: "image \<Rightarrow> error + image"
  normalize_img :: "image \<Rightarrow> error + image"

section \<open>Construction and the binarization table\<close>

text \<open>
  \<open>LegacyRecognizer.__init__\<close>: load the session, then \<open>[0] * 156 + [1] * 100\<close>.
  \<open>NNRecognizer.__init__\<close>: the same table first, then the session.
\<close>

definition legacy_init :: "(string \<Rightarrow> error + 'm) \<Rightarrow> string \<Rightarrow> error + 'm legacy_recognizer" where
  "legacy_init load model_file =
     (case load model_file of
        Inl e \<Rightarrow> Inl e
      | Inr s \<Rightarrow> Inr \<lparr>clr = s, legacy_table = replicate 156 0 @ replicate 100 1\<rparr>)"

definition nn_init :: "(string \<Rightarrow> error + 'm) \<Rightarrow> string \<Rightarrow> error + 'm nn_recognizer" where
  "nn_init load model_file =
     (let table = replicate 156 0 @ replicate 100 1 in
      (case load model_file of
         Inl e \<Rightarrow> Inl e
       | Inr s \<Rightarrow> Inr \<lparr>nn_table = table, sess = s\<rparr>))"

text \<open>
  Modelled from the spec: \<open>Image.point\<close>, the per-pixel lookup-table application of the
  imaging library, which is not under src/. The table has one entry per 8-bit intensity (the
  library rejects any other length), every pixel is replaced by the table's entry at its
  intensity, and the result carries the requested mode.
\<close>

definition point :: "image \<Rightarrow> int list \<Rightarrow> string \<Rightarrow> error + image" where
  "point im lut m =
     (if length lut \<noteq> 256 then Inl ValueError
      else Inr \<lparr>mode = m, pixels = map (map (\<lambda>p. of_int (lut ! unat p))) (pixels im)\<rparr>)"

text \<open>An image of \<open>h\<close> rows and \<open>w\<close> columns whose pixels all have the intensity \<open>v\<close>.\<close>

definition uniform :: "string \<Rightarrow> nat \<Rightarrow> nat \<Rightarrow> byte \<Rightarrow> image" where
  "uniform m h w v = \<lparr>mode = m, pixels = replicate h (replicate w v)\<rparr>"

section \<open>Raising inside a comprehension\<close>

text \<open>
  \<open>[f(x) for x in xs]\<close> where \<open>f\<close> may raise: the elements are computed from left to
  right and the first exception ends the comprehension.
\<close>

fun list_comp :: "('a \<Rightarrow> error + 'b) \<Rightarrow> 'a list \<Rightarrow> error + 'b list" where
  "list_comp f [] = Inr []"
| "list_comp f (x # xs) =
     (case f x of
        Inl e \<Rightarrow> Inl e
      | Inr y \<Rightarrow> (case list_comp f xs of Inl e \<Rightarrow> Inl e | Inr ys \<Rightarrow> Inr (y # ys)))"

section \<open>NNRecognizer._tensor_to_captcha\<close>

text \<open>
  An output tensor is a two-dimensional array of 32-bit floats, here its list of rows over
  \<open>real\<close> (a not-a-number score is outside the model). \<open>np.argmax(tensor, 1)\<close> gives for
  every row the first index of its largest entry and raises on an empty label axis;
  \<open>int(...)\<close> accepts an array of exactly one element.
\<close>

fun argmax_from :: "real \<Rightarrow> nat \<Rightarrow> nat \<Rightarrow> real list \<Rightarrow> nat" where
  "argmax_from best found i [] = found"
| "argmax_from best found i (x # xs) =
     (if best < x then argmax_from x i (Suc i) xs else argmax_from best found (Suc i) xs)"

definition argmax_row :: "real list \<Rightarrow> error + nat" where
  "argmax_row row = (case row of [] \<Rightarrow> Inl ValueError | x # xs \<Rightarrow> Inr (argmax_from x 0 1 xs))"

definition np_argmax :: "real list list \<Rightarrow> error + nat list" where
  "np_argmax tensor = list_comp argmax_row tensor"

definition int_of_array :: "nat list \<Rightarrow> error + int" where
  "int_of_array a = (case a of [i] \<Rightarrow> Inr (int i) | _ \<Rightarrow> Inl TypeError)"

text \<open>
  \<open>ord\<close> and \<open>chr\<close> on the code points that a \<open>char\<close> of HOL holds; \<open>chr\<close> answers
  anything else with an error, so a result of the decoder is never a wrapped-around
  character.
\<close>

definition ord :: "char \<Rightarrow> int" where
  "ord c = of_char c"

definition chr :: "int \<Rightarrow> error + char" where
  "chr i = (if 0 \<le> i \<and> i < 256 then Inr (char_of i) else Inl ValueError)"

text \<open>The loop of \<open>_tensor_to_captcha\<close>, with the string built so far as accumulator.\<close>

fun captcha_loop :: "string \<Rightarrow> real list list list \<Rightarrow> error + string" where
  "captcha_loop captcha [] = Inr captcha"
| "captcha_loop captcha (tensor # tensors) =
     (case np_argmax tensor of
        Inl e \<Rightarrow> Inl e
      | Inr a \<Rightarrow>
          (case int_of_array a of
             Inl e \<Rightarrow> Inl e
           | Inr asc \<Rightarrow>
               (if asc < 26 then
                  (case chr (ord CHR ''a'' + asc) of
                     Inl e \<Rightarrow> Inl e
                   | Inr c \<Rightarrow> captcha_loop (captcha @ [c]) tensors)
                else captcha_loop captcha tensors)))"

definition tensor_to_captcha :: "real list list list \<Rightarrow> error + string" where
  "tensor_to_captcha tensors = captcha_loop [] tensors"

text \<open>The index that one slot is decoded from: \<open>int(np.argmax(tensor, 1))\<close>.\<close>

definition slot_index :: "real list list \<Rightarrow> error + int" where
  "slot_index tensor =
     (case np_argmax tensor of Inl e \<Rightarrow> Inl e | Inr a \<Rightarrow> int_of_array a)"

text \<open>
  The specification's index of the maximum of a score vector, stated without the loop: a
  position that holds a largest entry and is the first one to do so.
\<close>

definition is_argmax :: "real list \<Rightarrow> nat \<Rightarrow> bool" where
  "is_argmax row k =
     (k < length row \<and> list_all (\<lambda>x. x \<le> row ! k) row \<and> list_all (\<lambda>x. x < row ! k) (take k row))"

text \<open>
  An output tensor that the decoder accepts has one row; it peaks at \<open>k\<close> when \<open>k\<close> is
  the index of the maximum of that row.
\<close>

definition peaks_at :: "real list list \<Rightarrow> nat \<Rightarrow> bool" where
  "peaks_at tensor k = (case tensor of [row] \<Rightarrow> is_argmax row k | _ \<Rightarrow> False)"

text \<open>The lowercase Latin alphabet, and a score vector of length \<open>n\<close> that peaks at \<open>k\<close>.\<close>

definition lowercase :: string where
  "lowercase = ''abcdefghijklmnopqrstuvwxyz''"

definition one_hot :: "nat \<Rightarrow> nat \<Rightarrow> real list" where
  "one_hot n k = map (\<lambda>j. if j = k then 1 else 0) [0..<n]"

section \<open>NNRecognizer.recognize\<close>

text \<open>
  \<open>np.array(img_rec, dtype=np.float32)\<close> of a two-level image is 1.0 where the pixel is
  set and 0.0 elsewhere; \<open>np.expand_dims(x, 0)\<close> wraps the array in a new leading axis.
\<close>

definition np_array_image :: "image \<Rightarrow> real list list" where
  "np_array_image im = map (map (\<lambda>p. if p = 0 then 0 else 1)) (pixels im)"

definition expand_dims :: "'a \<Rightarrow> 'a list" where
  "expand_dims x = [x]"

type_synonym nn_input = "real list list list list"

definition nn_recognize ::
  "pil \<Rightarrow> ('m \<Rightarrow> nn_input \<Rightarrow> error + real list list list) \<Rightarrow>
   ('m nn_recognizer, nn_input) world \<Rightarrow> byte list \<Rightarrow>
   (error + string) \<times> ('m nn_recognizer, nn_input) world" where
  "nn_recognize P run w img =
     (let w1 = w\<lparr>trace := trace w @ [Decode img]\<rparr> in
      (case image_open P img of
         Inl e \<Rightarrow> (Inl e, w1)
       | Inr opened \<Rightarrow>
      (case convert P opened ''L'' of
         Inl e \<Rightarrow> (Inl e, w1)
       | Inr gray \<Rightarrow>
      (case point gray (nn_table (self w1)) ''1'' of
         Inl e \<Rightarrow> (Inl e, w1)
       | Inr img_rec \<Rightarrow>
      (let img_np = expand_dims (expand_dims (np_array_image img_rec));
           w2 = w1\<lparr>trace := trace w1 @ [Run img_np]\<rparr> in
       (case run (sess (self w2)) img_np of
          Inl e \<Rightarrow> (Inl e, w2)
        | Inr out_tensor \<Rightarrow> (tensor_to_captcha out_tensor, w2)))))))"

section \<open>LegacyRecognizer.recognize\<close>

text \<open>
  One element of the comprehension over the segments:
  \<open>normalize(v_split(segment)).convert("L").getdata()\<close>, the pixels row after row.
\<close>

definition getdata :: "image \<Rightarrow> byte list" where
  "getdata im = concat (pixels im)"

definition segment_data :: "pil \<Rightarrow> utils \<Rightarrow> image \<Rightarrow> error + byte list" where
  "segment_data P U segment =
     (case v_split U segment of
        Inl e \<Rightarrow> Inl e
      | Inr v \<Rightarrow>
     (case normalize_img U v of
        Inl e \<Rightarrow> Inl e
      | Inr n \<Rightarrow>
     (case convert P n ''L'' of
        Inl e \<Rightarrow> Inl e
      | Inr g \<Rightarrow> Inr (getdata g))))"

definition np_array_data :: "byte list \<Rightarrow> real list" where
  "np_array_data segment = map (\<lambda>p. real (unat p)) segment"

text \<open>
  The comprehension that runs the model once per segment. Every run is an event of the
  trace, whether it returns or raises.
\<close>

fun run_segments ::
  "('m \<Rightarrow> real list \<Rightarrow> error + 'l list list) \<Rightarrow> real list list \<Rightarrow>
   ('m legacy_recognizer, real list) world \<Rightarrow>
   (error + 'l list list list) \<times> ('m legacy_recognizer, real list) world" where
  "run_segments run [] w = (Inr [], w)"
| "run_segments run (np_segment # rest) w =
     (let w1 = w\<lparr>trace := trace w @ [Run np_segment]\<rparr> in
      (case run (clr (self w1)) np_segment of
         Inl e \<Rightarrow> (Inl e, w1)
       | Inr predict \<Rightarrow>
           (case run_segments run rest w1 of
              (Inl e, w2) \<Rightarrow> (Inl e, w2)
            | (Inr predicts, w2) \<Rightarrow> (Inr (predict # predicts), w2))))"

text \<open>\<open>predict[0][0]\<close>: the first element of the first output; either index may be out of range.\<close>

definition first_label :: "'l list list \<Rightarrow> error + 'l" where
  "first_label predict =
     (case predict of
        [] \<Rightarrow> Inl IndexError
      | out # _ \<Rightarrow> (case out of [] \<Rightarrow> Inl IndexError | l # _ \<Rightarrow> Inr l))"

definition join_labels :: "('l \<Rightarrow> string) \<Rightarrow> 'l list list list \<Rightarrow> error + string" where
  "join_labels str predicts =
     (case list_comp (\<lambda>predict. (case first_label predict of Inl e \<Rightarrow> Inl e | Inr l \<Rightarrow> Inr (str l)))
             predicts of
        Inl e \<Rightarrow> Inl e
      | Inr parts \<Rightarrow> Inr (concat parts))"

definition legacy_recognize ::
  "pil \<Rightarrow> utils \<Rightarrow> ('m \<Rightarrow> real list \<Rightarrow> error + 'l list list) \<Rightarrow> ('l \<Rightarrow> string) \<Rightarrow>
   ('m legacy_recognizer, real list) world \<Rightarrow> byte list \<Rightarrow>
   (error + string) \<times> ('m legacy_recognizer, real list) world" where
  "legacy_recognize P U run str w img =
     (let w1 = w\<lparr>trace := trace w @ [Decode img]\<rparr> in
      (case image_open P img of
         Inl e \<Rightarrow> (Inl e, w1)
       | Inr opened \<Rightarrow>
      (case convert P opened ''L'' of
         Inl e \<Rightarrow> (Inl e, w1)
       | Inr gray \<Rightarrow>
      (case point gray (legacy_table (self w1)) ''1'' of
         Inl e \<Rightarrow> (Inl e, w1)
       | Inr img_rec \<Rightarrow>
      (case h_split U img_rec of
         Inl e \<Rightarrow> (Inl e, w1)
       | Inr parts \<Rightarrow>
      (case list_comp (segment_data P U) parts of
         Inl e \<Rightarrow> (Inl e, w1)
       | Inr segments \<Rightarrow>
      (let np_segments = map np_array_data segments in
       (case run_segments run np_segments w1 of
          (Inl e, w2) \<Rightarrow> (Inl e, w2)
        | (Inr predicts, w2) \<Rightarrow> (join_labels str predicts, w2)))))))))"

text \<open>
  A segment is labelled \<open>label\<close> when its comprehension element can be computed and the
  model, run on it, answers with a first output whose first element is \<open>label\<close>.
\<close>

definition labelled ::
  "pil \<Rightarrow> utils \<Rightarrow> ('m \<Rightarrow> real list \<Rightarrow> error + 'l list list) \<Rightarrow> 'm \<Rightarrow> image \<Rightarrow> 'l \<Rightarrow> bool" where
  "labelled P U run m part label =
     (case segment_data P U part of
        Inl e \<Rightarrow> False
      | Inr data \<Rightarrow>
          (case run m (np_array_data data) of
             Inl e \<Rightarrow> False
           | Inr predict \<Rightarrow> first_label predict = Inr label))"

section \<open>Concrete collaborators\<close>

text \<open>
  Stand-ins for the collaborators, small enough to run by hand. The imaging library reads a
  raw one-row format (the bytes are the pixels of the row; no bytes are no image) and, when it
  converts a two-level image to grayscale, shows a set pixel as 255. The helpers cut an image
  into segments of one pixel each and leave a segment as it is.
\<close>

definition pil_demo :: pil where
  "pil_demo =
     \<lparr>image_open = (\<lambda>b. if b = [] then Inl DecodeError else Inr \<lparr>mode = ''L'', pixels = [b]\<rparr>),
      convert = (\<lambda>im m. Inr \<lparr>mode = m,
        pixels = (if mode im = ''1'' \<and> m = ''L''
                  then map (map (\<lambda>p. if p = 0 then 0 else 255)) (pixels im)
                  else pixels im)\<rparr>)\<rparr>"

definition utils_demo :: utils where
  "utils_demo =
     \<lparr>h_split = (\<lambda>im. Inr (map (\<lambda>p. \<lparr>mode = mode im, pixels = [[p]]\<rparr>) (concat (pixels im)))),
      v_split = (\<lambda>im. Inr im),
      normalize_img = (\<lambda>im. Inr im)\<rparr>"

text \<open>
  A segment classifier with string labels that answers \<open>''a''\<close> for a dark segment and
  \<open>''b''\<close> for a light one, a classifier that answers every segment with one fixed label, and
  \<open>str\<close> on a label that is a string already.
\<close>

definition svm_run_demo :: "unit \<Rightarrow> real list \<Rightarrow> error + string list list" where
  "svm_run_demo m x =
     (case x of [] \<Rightarrow> Inl InferenceError | v # _ \<Rightarrow> Inr [[if v = 0 then ''a'' else ''b'']])"

definition svm_run_const :: "string \<Rightarrow> unit \<Rightarrow> real list \<Rightarrow> error + string list list" where
  "svm_run_const label m x = Inr [[label]]"

definition str_demo :: "string \<Rightarrow> string" where
  "str_demo label = label"

text \<open>
  A whole-image model with three character slots: the first peaks at index 2, the second at
  index 26 of 27 labels, the third at index 25.
\<close>

definition nn_run_demo :: "unit \<Rightarrow> nn_input \<Rightarrow> error + real list list list" where
  "nn_run_demo m x = Inr [[one_hot 3 2], [one_hot 27 26], [one_hot 26 25]]"

text \<open>A loader that accepts every path, for the concrete instances below.\<close>

definition load_unit :: "string \<Rightarrow> error + unit" where
  "load_unit model_file = Inr ()"

text \<open>The two recognizers as their constructors build them on the default paths.\<close>

definition svm_demo :: "unit legacy_recognizer" where
  "svm_demo = \<lparr>clr = (), legacy_table = replicate 156 0 @ replicate 100 1\<rparr>"

definition nn_demo :: "unit nn_recognizer" where
  "nn_demo = \<lparr>nn_table = replicate 156 0 @ replicate 100 1, sess = ()\<rparr>"

definition svm_world :: "(unit legacy_recognizer, real list) world" where
  "svm_world = \<lparr>self = svm_demo, trace = []\<rparr>"

definition nn_world :: "(unit nn_recognizer, nn_input) world" where
  "nn_world = \<lparr>self = nn_demo, trace = []\<rparr>"

section \<open>The decoder\<close>

lemma is_argmax_iff:
  "is_argmax row k \<longleftrightarrow> k < length row \<and> (\<forall>j<length row. row ! j \<le> row ! k) \<and> (\<forall>j<k. row ! j < row ! k)"
  by (auto simp: is_argmax_def list_all_length)

lemma is_argmax_unique:
  assumes "is_argmax row k" and "is_argmax row k'"
  shows "k = k'"
proof (rule ccontr)
  assume "k \<noteq> k'"
  then consider "k < k'" | "k' < k" by linarith
  then show False
  proof cases
    case 1
    with assms have "row ! k < row ! k'" "row ! k' \<le> row ! k"
      by (auto simp: is_argmax_iff)
    then show False by simp
  next
    case 2
    with assms have "row ! k' < row ! k" "row ! k \<le> row ! k'"
      by (auto simp: is_argmax_iff)
    then show False by simp
  qed
qed

lemma argmax_from_is_argmax:
  assumes "found < length pre" and "pre ! found = best"
    and "\<forall>j<length pre. pre ! j \<le> best" and "\<forall>j<found. pre ! j < best"
  shows "is_argmax (pre @ xs) (argmax_from best found (length pre) xs)"
  using assms
proof (induction xs arbitrary: pre best found)
  case Nil
  then show ?case by (simp add: is_argmax_iff)
next
  case (Cons x xs)
  show ?case
  proof (cases "best < x")
    case True
    have "is_argmax ((pre @ [x]) @ xs) (argmax_from x (length pre) (length (pre @ [x])) xs)"
    proof (rule Cons.IH)
      show "length pre < length (pre @ [x])" by simp
      show "(pre @ [x]) ! length pre = x" by simp
      show "\<forall>j<length (pre @ [x]). (pre @ [x]) ! j \<le> x"
        using Cons.prems(3) True by (auto simp: nth_append less_Suc_eq intro: less_imp_le order_le_less_trans)
      show "\<forall>j<length pre. (pre @ [x]) ! j < x"
        using Cons.prems(3) True by (auto simp: nth_append intro: order_le_less_trans)
    qed
    with True show ?thesis by simp
  next
    case False
    have "is_argmax ((pre @ [x]) @ xs) (argmax_from best found (length (pre @ [x])) xs)"
    proof (rule Cons.IH)
      show "found < length (pre @ [x])" using Cons.prems(1) by simp
      show "(pre @ [x]) ! found = best" using Cons.prems(1,2) by (simp add: nth_append)
      show "\<forall>j<length (pre @ [x]). (pre @ [x]) ! j \<le> best"
        using Cons.prems(3) False by (auto simp: nth_append less_Suc_eq)
      show "\<forall>j<found. (pre @ [x]) ! j < best"
        using Cons.prems(1,4) by (auto simp: nth_append)
    qed
    with False show ?thesis by simp
  qed
qed

lemma argmax_row_is_argmax:
  "argmax_row row = Inr k \<longleftrightarrow> is_argmax row k"
proof (cases row)
  case Nil
  then show ?thesis by (simp add: argmax_row_def is_argmax_iff)
next
  case (Cons x xs)
  have "is_argmax ([x] @ xs) (argmax_from x 0 (length [x]) xs)"
    by (rule argmax_from_is_argmax) simp_all
  then have *: "is_argmax row (argmax_from x 0 1 xs)" using Cons by simp
  show ?thesis
  proof
    assume "argmax_row row = Inr k"
    then show "is_argmax row k" using * Cons by (simp add: argmax_row_def)
  next
    assume "is_argmax row k"
    then have "k = argmax_from x 0 1 xs" using * by (rule is_argmax_unique)
    then show "argmax_row row = Inr k" using Cons by (simp add: argmax_row_def)
  qed
qed

lemma slot_index_single:
  "is_argmax row k \<Longrightarrow> slot_index [row] = Inr (int k)"
  by (simp add: slot_index_def np_argmax_def int_of_array_def argmax_row_is_argmax [symmetric])

lemma slot_index_nonneg: "slot_index tensor = Inr asc \<Longrightarrow> 0 \<le> asc"
  by (auto simp: slot_index_def int_of_array_def split: sum.splits list.splits)

lemma list_comp_Inr:
  "list_comp f xs = Inr ys \<longleftrightarrow> list_all2 (\<lambda>x y. f x = Inr y) xs ys"
proof (induction xs arbitrary: ys)
  case Nil
  then show ?case by auto
next
  case (Cons x xs)
  show ?case
    by (cases ys) (auto simp: Cons.IH [symmetric] split: sum.splits)
qed

lemma slot_index_Inr:
  assumes "slot_index tensor = Inr asc"
  shows "\<exists>row k. tensor = [row] \<and> is_argmax row k \<and> asc = int k"
proof -
  from assms obtain a where a: "np_argmax tensor = Inr a" and i: "int_of_array a = Inr asc"
    by (auto simp: slot_index_def split: sum.splits)
  from i obtain k where k: "a = [k]" "asc = int k"
    by (auto simp: int_of_array_def split: list.splits)
  from a k have "list_all2 (\<lambda>row k. argmax_row row = Inr k) tensor [k]"
    by (simp add: np_argmax_def list_comp_Inr)
  then obtain row where "tensor = [row]" "argmax_row row = Inr k"
    by (auto simp: list_all2_Cons2)
  then show ?thesis using k by (auto simp: argmax_row_is_argmax)
qed

lemma chr_lowercase_all:
  "\<forall>k \<in> set [0..<26]. chr (ord CHR ''a'' + int k) = Inr (lowercase ! k)"
  by code_simp

lemma chr_lowercase:
  "k < 26 \<Longrightarrow> chr (ord CHR ''a'' + int k) = Inr (lowercase ! k)"
  using chr_lowercase_all by simp

lemma captcha_loop_slots:
  "list_all2 (\<lambda>tensor asc. slot_index tensor = Inr asc) tensors ascs \<Longrightarrow>
   captcha_loop acc tensors = Inr (acc @ concat (map (\<lambda>asc. if asc < 26 then [lowercase ! nat asc] else []) ascs))"
proof (induction tensors ascs arbitrary: acc rule: list_all2_induct)
  case Nil
  then show ?case by simp
next
  case (Cons tensor tensors asc ascs)
  from Cons.hyps(1) obtain a where a: "np_argmax tensor = Inr a" "int_of_array a = Inr asc"
    by (auto simp: slot_index_def split: sum.splits)
  have nn: "0 \<le> asc" by (rule slot_index_nonneg [OF Cons.hyps(1)])
  show ?case
  proof (cases "asc < 26")
    case True
    with nn have "nat asc < 26" by simp
    from chr_lowercase [OF this] nn have "chr (ord CHR ''a'' + asc) = Inr (lowercase ! nat asc)"
      by simp
    with a True show ?thesis by (simp add: Cons.IH)
  next
    case False
    with a show ?thesis by (simp add: Cons.IH)
  qed
qed

lemma captcha_loop_Inr:
  "captcha_loop acc tensors = Inr s \<Longrightarrow>
   \<exists>ascs. list_all2 (\<lambda>tensor asc. slot_index tensor = Inr asc) tensors ascs"
proof (induction tensors arbitrary: acc)
  case Nil
  then show ?case by simp
next
  case (Cons tensor tensors)
  from Cons.prems obtain a asc where a: "np_argmax tensor = Inr a" "int_of_array a = Inr asc"
    by (auto split: sum.splits)
  then have s: "slot_index tensor = Inr asc" by (simp add: slot_index_def)
  from Cons.prems a obtain acc' where "captcha_loop acc' tensors = Inr s"
    by (auto split: sum.splits if_splits)
  from Cons.IH [OF this] obtain ascs
    where "list_all2 (\<lambda>tensor asc. slot_index tensor = Inr asc) tensors ascs" ..
  with s have "list_all2 (\<lambda>tensor asc. slot_index tensor = Inr asc) (tensor # tensors) (asc # ascs)"
    by simp
  then show ?case ..
qed

lemma is_argmax_one_hot: "k < n \<Longrightarrow> is_argmax (one_hot n k) k"
  by (simp add: is_argmax_iff one_hot_def)

lemma length_decoded:
  "length (concat (map (\<lambda>k. if P k then [f k] else []) ks)) = length (filter P ks)"
  by (induction ks) simp_all

lemma lowercase_nth_mem: "k < 26 \<Longrightarrow> lowercase ! k \<in> set lowercase"
  by (rule nth_mem) (simp add: lowercase_def)

lemma peaks_at_slot_index: "peaks_at tensor k \<longleftrightarrow> slot_index tensor = Inr (int k)"
proof
  assume "peaks_at tensor k"
  then obtain row where "tensor = [row]" "is_argmax row k"
    by (auto simp: peaks_at_def split: list.splits)
  then show "slot_index tensor = Inr (int k)" by (simp add: slot_index_single)
next
  assume "slot_index tensor = Inr (int k)"
  from slot_index_Inr [OF this] obtain row k' where "tensor = [row]" "is_argmax row k'" "int k = int k'"
    by blast
  then show "peaks_at tensor k" by (simp add: peaks_at_def)
qed

lemma peaks_at_eq: "peaks_at = (\<lambda>tensor k. slot_index tensor = Inr (int k))"
  by (intro ext) (rule peaks_at_slot_index)

lemma slots_of_rows:
  "list_all2 peaks_at tensors ks \<Longrightarrow>
   list_all2 (\<lambda>tensor asc. slot_index tensor = Inr asc) tensors (map int ks)"
  by (simp add: list_all2_map2 peaks_at_eq)

lemma rows_of_slots:
  assumes "list_all2 (\<lambda>tensor asc. slot_index tensor = Inr asc) tensors ascs"
  shows "list_all2 peaks_at tensors (map nat ascs) \<and> ascs = map int (map nat ascs)"
proof -
  have nn: "\<forall>asc \<in> set ascs. 0 \<le> asc"
  proof
    fix asc assume "asc \<in> set ascs"
    then obtain i where i: "i < length ascs" "ascs ! i = asc" by (auto simp: in_set_conv_nth)
    with assms have "slot_index (tensors ! i) = Inr asc" by (auto simp: list_all2_conv_all_nth)
    then show "0 \<le> asc" by (rule slot_index_nonneg)
  qed
  then have eq: "ascs = map int (map nat ascs)" by (simp add: map_idI)
  have "list_all2 (\<lambda>tensor asc. slot_index tensor = Inr (int (nat asc))) tensors ascs"
    using assms nn by (auto simp: list_all2_conv_all_nth)
  then have "list_all2 peaks_at tensors (map nat ascs)"
    by (simp add: list_all2_map2 peaks_at_eq)
  with eq show ?thesis by blast
qed

lemma tensor_to_captcha_rows:
  assumes "list_all2 peaks_at tensors ks"
  shows "tensor_to_captcha tensors = Inr (concat (map (\<lambda>k. if k < 26 then [lowercase ! k] else []) ks))"
proof -
  have e: "(\<lambda>asc. if asc < 26 then [lowercase ! nat asc] else []) \<circ> int =
           (\<lambda>k. if k < 26 then [lowercase ! k] else [])"
    by (rule ext) simp
  have "captcha_loop [] tensors =
        Inr ([] @ concat (map (\<lambda>asc. if asc < 26 then [lowercase ! nat asc] else []) (map int ks)))"
    by (rule captcha_loop_slots [OF slots_of_rows [OF assms]])
  then show ?thesis
    unfolding tensor_to_captcha_def by (simp only: map_map e append_Nil)
qed

lemma tensor_to_captcha_Inr:
  assumes "tensor_to_captcha tensors = Inr s"
  shows "\<exists>ks. list_all2 peaks_at tensors ks \<and>
              s = concat (map (\<lambda>k. if k < 26 then [lowercase ! k] else []) ks)"
proof -
  from assms obtain ascs where "list_all2 (\<lambda>tensor asc. slot_index tensor = Inr asc) tensors ascs"
    unfolding tensor_to_captcha_def by (blast dest: captcha_loop_Inr)
  from rows_of_slots [OF this] have ks: "list_all2 peaks_at tensors (map nat ascs)" by blast
  from tensor_to_captcha_rows [OF ks] assms
  have "s = concat (map (\<lambda>k. if k < 26 then [lowercase ! k] else []) (map nat ascs))" by simp
  with ks show ?thesis by blast
qed

section \<open>The table\<close>

lemma table_nth:
  "p < 256 \<Longrightarrow> (replicate 156 (0::int) @ replicate 100 1) ! p = (if p \<le> 155 then 0 else 1)"
  by (simp add: nth_append)

lemma legacy_init_table:
  "legacy_init load f = Inr r \<Longrightarrow> legacy_table r = replicate 156 0 @ replicate 100 1"
  by (auto simp: legacy_init_def split: sum.splits)

lemma nn_init_table:
  "nn_init load f = Inr r \<Longrightarrow> nn_table r = replicate 156 0 @ replicate 100 1"
  by (auto simp: nn_init_def split: sum.splits)

lemma point_table:
  "point im (replicate 156 0 @ replicate 100 1) m =
     Inr \<lparr>mode = m, pixels = map (map (\<lambda>p. if p \<le> 155 then 0 else 1)) (pixels im)\<rparr>"
proof -
  have "(of_int ((replicate 156 (0::int) @ replicate 100 1) ! unat p) :: byte) =
        (if p \<le> 155 then 0 else 1)" for p :: byte
  proof -
    have lt: "unat p < 256" using unsigned_less [of p] by simp
    have a: "(replicate 156 (0::int) @ replicate 100 1) ! unat p = (if unat p \<le> 155 then 0 else 1)"
      by (rule table_nth [OF lt])
    have b: "(unat p \<le> 155) = (p \<le> 155)" by (simp add: word_le_nat_alt)
    show ?thesis unfolding a b by simp
  qed
  then show ?thesis by (simp add: point_def)
qed

lemma table_threshold:
  "replicate 156 (0::int) @ replicate 100 1 = map (\<lambda>p. if 156 \<le> p then 1 else 0) [0..<256]"
  by (rule nth_equalityI) (simp_all add: nth_append)

lemma point_table_uniform:
  "point (uniform m0 h w v) (replicate 156 0 @ replicate 100 1) m =
     Inr (uniform m h w (if v \<le> 155 then 0 else 1))"
  by (simp add: point_table uniform_def)

lemma svm_demo_init: "legacy_init load_unit ''svm_model.onnx'' = Inr svm_demo"
  by (simp add: legacy_init_def load_unit_def svm_demo_def)

lemma nn_demo_init: "nn_init load_unit ''nn_model.onnx'' = Inr nn_demo"
  by (simp add: nn_init_def load_unit_def nn_demo_def)

text \<open>
  C2: the table that either constructor builds has exactly 256 entries, holds 0 at every
  intensity up to 155 and 1 at every intensity from 156 to 255; with it an image of all-zero
  pixels binarizes to 0 everywhere and an image of all-255 pixels to 1 everywhere.
\<close>

theorem binarization_table_piecewise:
  assumes "legacy_init load f = Inr lr" and "nn_init load' f' = Inr nr"
  shows "length (legacy_table lr) = 256 \<and> length (nn_table nr) = 256 \<and>
         (\<forall>p<256. legacy_table lr ! p = (if p \<le> 155 then 0 else 1) \<and>
                   nn_table nr ! p = (if p \<le> 155 then 0 else 1)) \<and>
         (\<forall>table \<in> {legacy_table lr, nn_table nr}.
            point (uniform ''L'' h w 0) table ''1'' = Inr (uniform ''1'' h w 0) \<and>
            point (uniform ''L'' h w 255) table ''1'' = Inr (uniform ''1'' h w 1))"
proof -
  have l: "legacy_table lr = replicate 156 0 @ replicate 100 1"
    by (rule legacy_init_table [OF assms(1)])
  have n: "nn_table nr = replicate 156 0 @ replicate 100 1"
    by (rule nn_init_table [OF assms(2)])
  show ?thesis
    unfolding l n by (simp add: table_nth point_table_uniform del: replicate.simps)
qed

theorem binarization_table_piecewise_witness:
  "legacy_init load_unit ''svm_model.onnx'' = Inr svm_demo \<and>
   nn_init load_unit ''nn_model.onnx'' = Inr nn_demo \<and>
   legacy_table svm_demo ! 155 = 0 \<and> nn_table nn_demo ! 156 = 1 \<and>
   point (uniform ''L'' 2 3 255) (nn_table nn_demo) ''1'' = Inr (uniform ''1'' 2 3 1)"
proof -
  note t = binarization_table_piecewise [OF svm_demo_init nn_demo_init, of 2 3]
  from t have "legacy_table svm_demo ! 155 = 0" and "nn_table nn_demo ! 156 = 1"
    by simp_all
  moreover from t
  have "point (uniform ''L'' 2 3 255) (nn_table nn_demo) ''1'' = Inr (uniform ''1'' 2 3 1)"
    by blast
  ultimately show ?thesis using svm_demo_init nn_demo_init by blast
qed

text \<open>
  C10: the table of either recognizer is monotone on the intensities 0 to 255, and it is
  exactly the threshold comparison: entry \<open>i\<close> is 1 if \<open>i \<ge> 156\<close> and 0 otherwise.
\<close>

theorem binarization_table_monotone:
  assumes "legacy_init load f = Inr lr" and "nn_init load' f' = Inr nr"
    and "p \<le> q" and "q \<le> 255"
  shows "legacy_table lr ! p \<le> legacy_table lr ! q \<and> nn_table nr ! p \<le> nn_table nr ! q \<and>
         legacy_table lr = map (\<lambda>i. if 156 \<le> i then 1 else 0) [0..<256] \<and>
         nn_table nr = map (\<lambda>i. if 156 \<le> i then 1 else 0) [0..<256]"
proof -
  have l: "legacy_table lr = replicate 156 0 @ replicate 100 1"
    by (rule legacy_init_table [OF assms(1)])
  have n: "nn_table nr = replicate 156 0 @ replicate 100 1"
    by (rule nn_init_table [OF assms(2)])
  have "p < 256" and "q < 256" using assms(3,4) by simp_all
  then have "(replicate 156 (0::int) @ replicate 100 1) ! p \<le> (replicate 156 0 @ replicate 100 1) ! q"
    using assms(3) by (simp only: table_nth) simp
  then show ?thesis unfolding l n using table_threshold by simp
qed

theorem binarization_table_monotone_witness:
  "legacy_init load_unit ''svm_model.onnx'' = Inr svm_demo \<and>
   nn_init load_unit ''nn_model.onnx'' = Inr nn_demo \<and> (155::nat) \<le> 156 \<and> (156::nat) \<le> 255 \<and>
   legacy_table svm_demo ! 155 \<le> legacy_table svm_demo ! 156 \<and>
   nn_table nn_demo ! 155 \<le> nn_table nn_demo ! 156"
proof -
  have c: "(155::nat) \<le> 156" and d: "(156::nat) \<le> 255" by simp_all
  from binarization_table_monotone [OF svm_demo_init nn_demo_init c d] show ?thesis
    using svm_demo_init nn_demo_init by simp
qed

text \<open>
  C5, as stated, fails: the table sends the binarized level 1 to 0 (entry 1 of the table is
  0), so an intensity of 200 binarizes to 1 and a second application turns it into 0.
\<close>

theorem binarization_idempotent_counterexample:
  "legacy_init load_unit ''svm_model.onnx'' = Inr svm_demo \<and>
   point (uniform ''L'' 1 1 200) (legacy_table svm_demo) ''1'' = Inr (uniform ''1'' 1 1 1) \<and>
   point (uniform ''1'' 1 1 1) (legacy_table svm_demo) ''1'' = Inr (uniform ''1'' 1 1 0) \<and>
   uniform ''1'' 1 1 1 \<noteq> uniform ''1'' 1 1 0"
  by (simp add: legacy_init_def load_unit_def svm_demo_def point_table_uniform del: replicate.simps)
    (simp add: uniform_def)

text \<open>
  C5, amended: applying the table of either recognizer to an already-binarized image yields
  the all-zero image of the same shape, which is the same image exactly when every pixel of
  the image that was binarized had an intensity of at most 155.
\<close>

theorem binarization_twice:
  assumes "table \<in> {legacy_table lr, nn_table nr}"
    and "legacy_init load f = Inr lr" and "nn_init load' f' = Inr nr"
    and "point im table ''1'' = Inr b"
  shows "point b table ''1'' = Inr \<lparr>mode = ''1'', pixels = map (map (\<lambda>p. 0)) (pixels im)\<rparr> \<and>
         (point b table ''1'' = Inr b \<longleftrightarrow> (\<forall>row \<in> set (pixels im). \<forall>p \<in> set row. p \<le> 155))"
proof -
  have t: "table = replicate 156 0 @ replicate 100 1"
    using assms(1) legacy_init_table [OF assms(2)] nn_init_table [OF assms(3)] by auto
  have b: "b = \<lparr>mode = ''1'', pixels = map (map (\<lambda>p. if p \<le> 155 then 0 else 1)) (pixels im)\<rparr>"
    using assms(4) unfolding t point_table by simp
  have two: "point b table ''1'' = Inr \<lparr>mode = ''1'', pixels = map (map (\<lambda>p. 0)) (pixels im)\<rparr>"
    unfolding t point_table b by (simp add: comp_def)
  have "(map (map (\<lambda>p. 0::byte)) (pixels im) = map (map (\<lambda>p. if p \<le> 155 then 0 else 1)) (pixels im))
        = (\<forall>row \<in> set (pixels im). \<forall>p \<in> set row. p \<le> 155)"
    by auto
  then show ?thesis unfolding two by (simp add: b)
qed

theorem binarization_twice_witness:
  "nn_table nn_demo \<in> {legacy_table svm_demo, nn_table nn_demo} \<and>
   legacy_init load_unit ''svm_model.onnx'' = Inr svm_demo \<and>
   nn_init load_unit ''nn_model.onnx'' = Inr nn_demo \<and>
   point (uniform ''L'' 1 2 100) (nn_table nn_demo) ''1'' = Inr (uniform ''1'' 1 2 0) \<and>
   pixels (uniform ''L'' 1 2 100) = [[100, 100]] \<and>
   point (uniform ''1'' 1 2 0) (nn_table nn_demo) ''1'' = Inr (uniform ''1'' 1 2 0)"
proof -
  have m: "nn_table nn_demo \<in> {legacy_table svm_demo, nn_table nn_demo}" by simp
  have p: "point (uniform ''L'' 1 2 100) (nn_table nn_demo) ''1'' = Inr (uniform ''1'' 1 2 0)"
    by (simp add: nn_demo_def point_table_uniform del: replicate.simps)
  have q: "\<forall>row \<in> set (pixels (uniform ''L'' 1 2 100)). \<forall>p \<in> set row. p \<le> 155"
    by (simp add: uniform_def)
  from binarization_twice [OF m svm_demo_init nn_demo_init p] q
  have "point (uniform ''1'' 1 2 0) (nn_table nn_demo) ''1'' = Inr (uniform ''1'' 1 2 0)"
    by blast
  moreover have "pixels (uniform ''L'' 1 2 100) = [[100, 100]]"
    by (simp add: uniform_def numeral_2_eq_2)
  ultimately show ?thesis using m p svm_demo_init nn_demo_init by blast
qed

section \<open>What the whole-image recognizer returns\<close>

lemma lowercase_offsets:
  "\<forall>k \<in> set [0..<26]. ord (lowercase ! k) = ord CHR ''a'' + int k"
  by code_simp

lemma demo_tensors_peak:
  "list_all2 peaks_at [[one_hot 3 2], [one_hot 27 26], [one_hot 26 25]] [2, 26, 25]"
  by (simp add: peaks_at_def is_argmax_one_hot)

text \<open>
  C1: for output tensors of one row each, where \<open>ks\<close> lists the indices of their maxima,
  the decoder emits for every slot whose index is below 26 the letter at that index of the
  lowercase alphabet, which is the character \<open>'a' + index\<close> (index 25 gives \<open>'z'\<close>), and
  emits nothing for a slot whose index is 26 or above.
\<close>

theorem tensor_to_captcha_argmax:
  assumes "list_all2 peaks_at tensors ks"
  shows "tensor_to_captcha tensors =
           Inr (concat (map (\<lambda>k. if k < 26 then [lowercase ! k] else []) ks)) \<and>
         (\<forall>k<26. ord (lowercase ! k) = ord CHR ''a'' + int k) \<and>
         lowercase ! 25 = CHR ''z''"
proof -
  have "\<forall>k<26. ord (lowercase ! k) = ord CHR ''a'' + int k"
    using lowercase_offsets by simp
  moreover have "lowercase ! 25 = CHR ''z''" by (simp add: lowercase_def)
  ultimately show ?thesis using tensor_to_captcha_rows [OF assms] by blast
qed

theorem tensor_to_captcha_argmax_witness:
  "list_all2 peaks_at [[one_hot 3 2], [one_hot 27 26], [one_hot 26 25]] [2, 26, 25] \<and>
   tensor_to_captcha [[one_hot 3 2], [one_hot 27 26], [one_hot 26 25]] = Inr ''cz''"
proof -
  from tensor_to_captcha_argmax [OF demo_tensors_peak]
  have "tensor_to_captcha [[one_hot 3 2], [one_hot 27 26], [one_hot 26 25]] = Inr ''cz''"
    by (simp add: lowercase_def)
  with demo_tensors_peak show ?thesis by blast
qed

lemma nn_recognize_Inr:
  assumes "nn_recognize P run w img = (Inr s, w')"
  shows "\<exists>x out_tensor. run (sess (self w)) x = Inr out_tensor \<and>
           tensor_to_captcha out_tensor = Inr s \<and> trace w' = trace w @ [Decode img, Run x]"
  using assms
  by (auto simp: nn_recognize_def Let_def split: sum.splits)

text \<open>
  C4: a string that the whole-image recognizer returns is at most as long as the list of
  output tensors of the model run of that call, its length is the number of slots whose
  maximum lies below index 26, and it is strictly shorter than the list whenever some slot has
  its maximum at index 26 or above.
\<close>

theorem nn_recognize_length:
  assumes "nn_recognize P run w img = (Inr s, w')"
  shows "\<exists>x out_tensor ks.
           run (sess (self w)) x = Inr out_tensor \<and> trace w' = trace w @ [Decode img, Run x] \<and>
           list_all2 peaks_at out_tensor ks \<and>
           length s = length (filter (\<lambda>k. k < 26) ks) \<and>
           length s \<le> length out_tensor \<and>
           ((\<exists>k \<in> set ks. \<not> k < 26) \<longrightarrow> length s < length out_tensor)"
proof -
  from nn_recognize_Inr [OF assms] obtain x out_tensor
    where r: "run (sess (self w)) x = Inr out_tensor" "trace w' = trace w @ [Decode img, Run x]"
      and t: "tensor_to_captcha out_tensor = Inr s" by blast
  from tensor_to_captcha_Inr [OF t] obtain ks
    where ks: "list_all2 peaks_at out_tensor ks"
      and s: "s = concat (map (\<lambda>k. if k < 26 then [lowercase ! k] else []) ks)" by blast
  have len: "length out_tensor = length ks" using ks by (rule list_all2_lengthD)
  have l: "length s = length (filter (\<lambda>k. k < 26) ks)"
    unfolding s by (rule length_decoded)
  have le: "length s \<le> length out_tensor" unfolding l len by (rule length_filter_le)
  have lt: "length s < length out_tensor" if "\<exists>k \<in> set ks. \<not> k < 26"
  proof -
    from that obtain k where "k \<in> set ks" "\<not> k < 26" by blast
    then show ?thesis unfolding l len by (rule length_filter_less)
  qed
  from r ks l le lt show ?thesis by blast
qed

lemma nn_demo_recognize:
  "nn_recognize pil_demo nn_run_demo nn_world [10, 200] =
     (Inr ''cz'', \<lparr>self = nn_demo, trace = [Decode [10, 200], Run [[[[0, 1]]]]]\<rparr>)"
proof -
  have t: "tensor_to_captcha [[one_hot 3 2], [one_hot 27 26], [one_hot 26 25]] = Inr ''cz''"
    using tensor_to_captcha_rows [OF demo_tensors_peak] by (simp add: lowercase_def)
  have p: "point \<lparr>mode = ''L'', pixels = [[10, 200]]\<rparr> (nn_table nn_demo) ''1'' =
           Inr \<lparr>mode = ''1'', pixels = [[0, 1]]\<rparr>"
    by (simp add: nn_demo_def point_table)
  show ?thesis
    by (simp add: nn_recognize_def pil_demo_def nn_world_def p Let_def np_array_image_def
        expand_dims_def nn_run_demo_def t)
qed

theorem nn_recognize_length_witness:
  "nn_recognize pil_demo nn_run_demo nn_world [10, 200] =
     (Inr ''cz'', \<lparr>self = nn_demo, trace = [Decode [10, 200], Run [[[[0, 1]]]]]\<rparr>) \<and>
   nn_run_demo () [[[[0, 1]]]] = Inr [[one_hot 3 2], [one_hot 27 26], [one_hot 26 25]] \<and>
   (\<exists>x out_tensor. nn_run_demo (sess (self nn_world)) x = Inr out_tensor \<and>
      length ''cz'' \<le> length out_tensor)"
proof -
  from nn_recognize_length [OF nn_demo_recognize]
  have "\<exists>x out_tensor. nn_run_demo (sess (self nn_world)) x = Inr out_tensor \<and>
      length ''cz'' \<le> length out_tensor"
    by blast
  then show ?thesis using nn_demo_recognize by (simp add: nn_run_demo_def)
qed

section \<open>State and effects of a call\<close>

lemma run_segments_self: "run_segments run xs w = (r, w') \<Longrightarrow> self w' = self w"
proof (induction xs arbitrary: w r w')
  case Nil
  then show ?case by simp
next
  case (Cons x xs)
  show ?case
  proof (cases "run (clr (self w)) x")
    case (Inl e)
    with Cons.prems show ?thesis by (auto simp: Let_def)
  next
    case (Inr predict)
    obtain r1 w1 where rest: "run_segments run xs (w\<lparr>trace := trace w @ [Run x]\<rparr>) = (r1, w1)"
      by (cases "run_segments run xs (w\<lparr>trace := trace w @ [Run x]\<rparr>)")
    from Cons.IH [OF rest] have "self w1 = self w" by simp
    moreover from Cons.prems Inr rest have "w' = w1"
      by (auto simp: Let_def split: sum.splits)
    ultimately show ?thesis by simp
  qed
qed

lemma run_segments_fst: "fst (run_segments run xs w) = list_comp (run (clr (self w))) xs"
proof (induction xs arbitrary: w)
  case Nil
  then show ?case by simp
next
  case (Cons x xs)
  have "fst (run_segments run xs (w\<lparr>trace := trace w @ [Run x]\<rparr>)) = list_comp (run (clr (self w))) xs"
    using Cons.IH [of "w\<lparr>trace := trace w @ [Run x]\<rparr>"] by simp
  then show ?case
    by (auto simp: Let_def split: sum.splits prod.splits)
qed

lemma legacy_recognize_self: "self (snd (legacy_recognize P U run str w img)) = self w"
proof -
  have "self b = self w"
    if "run_segments run xs (w\<lparr>trace := trace w @ [Decode img]\<rparr>) = (a, b)" for xs a b
    using run_segments_self [OF that] by simp
  then show ?thesis
    by (auto simp: legacy_recognize_def Let_def split: sum.splits prod.splits)
qed

lemma nn_recognize_self: "self (snd (nn_recognize P run w img)) = self w"
  by (simp add: nn_recognize_def Let_def split: sum.splits)

lemma legacy_recognize_fst:
  "fst (legacy_recognize P U run str w img) =
     (case image_open P img of
        Inl e \<Rightarrow> Inl e
      | Inr opened \<Rightarrow>
     (case convert P opened ''L'' of
        Inl e \<Rightarrow> Inl e
      | Inr gray \<Rightarrow>
     (case point gray (legacy_table (self w)) ''1'' of
        Inl e \<Rightarrow> Inl e
      | Inr img_rec \<Rightarrow>
     (case h_split U img_rec of
        Inl e \<Rightarrow> Inl e
      | Inr parts \<Rightarrow>
     (case list_comp (segment_data P U) parts of
        Inl e \<Rightarrow> Inl e
      | Inr segments \<Rightarrow>
     (case list_comp (run (clr (self w))) (map np_array_data segments) of
        Inl e \<Rightarrow> Inl e
      | Inr predicts \<Rightarrow> join_labels str predicts))))))"
proof -
  have "fst (run_segments run xs (w\<lparr>trace := trace w @ [Decode img]\<rparr>)) = list_comp (run (clr (self w))) xs" for xs
    using run_segments_fst [of run xs "w\<lparr>trace := trace w @ [Decode img]\<rparr>"] by simp
  then have r: "run_segments run xs (w\<lparr>trace := trace w @ [Decode img]\<rparr>) = (a, b) \<Longrightarrow>
      list_comp (run (clr (self w))) xs = a" for xs a b
    by (metis fst_conv)
  show ?thesis
    by (auto simp: legacy_recognize_def Let_def dest: r split: sum.splits prod.splits)
qed

lemma nn_recognize_fst:
  "fst (nn_recognize P run w img) =
     (case image_open P img of
        Inl e \<Rightarrow> Inl e
      | Inr opened \<Rightarrow>
     (case convert P opened ''L'' of
        Inl e \<Rightarrow> Inl e
      | Inr gray \<Rightarrow>
     (case point gray (nn_table (self w)) ''1'' of
        Inl e \<Rightarrow> Inl e
      | Inr img_rec \<Rightarrow>
     (case run (sess (self w)) (expand_dims (expand_dims (np_array_image img_rec))) of
        Inl e \<Rightarrow> Inl e
      | Inr out_tensor \<Rightarrow> tensor_to_captcha out_tensor))))"
  by (simp add: nn_recognize_def Let_def split: sum.splits)

lemma svm_demo_point:
  "point \<lparr>mode = ''L'', pixels = [[10, 200]]\<rparr> (legacy_table svm_demo) ''1'' =
     Inr \<lparr>mode = ''1'', pixels = [[0, 1]]\<rparr>"
  by (simp add: svm_demo_def point_table)

lemma svm_demo_recognize:
  "legacy_recognize pil_demo utils_demo svm_run_demo str_demo svm_world [10, 200] =
     (Inr ''ab'', \<lparr>self = svm_demo, trace = [Decode [10, 200], Run [0], Run [255]]\<rparr>)"
  by (simp add: legacy_recognize_def pil_demo_def utils_demo_def svm_world_def svm_demo_point
      Let_def segment_data_def getdata_def np_array_data_def svm_run_demo_def join_labels_def
      first_label_def str_demo_def)

text \<open>
  C7: when the bytes are not a decodable image (opening them fails, or loading the pixels on
  the conversion to grayscale fails), \<open>recognize\<close> of either recognizer raises that very
  failure, and the only event of the call is the one decoding attempt: the model is not
  invoked and nothing is tried again.
\<close>

theorem recognize_decode_failure:
  assumes "image_open P img = Inl e \<or>
           (\<exists>opened. image_open P img = Inr opened \<and> convert P opened ''L'' = Inl e)"
  shows "legacy_recognize P U run str lw img = (Inl e, lw\<lparr>trace := trace lw @ [Decode img]\<rparr>) \<and>
         nn_recognize P nrun nw img = (Inl e, nw\<lparr>trace := trace nw @ [Decode img]\<rparr>)"
  using assms
  by (auto simp: legacy_recognize_def nn_recognize_def Let_def)

theorem recognize_decode_failure_witness:
  "image_open pil_demo [] = Inl DecodeError \<and>
   legacy_recognize pil_demo utils_demo svm_run_demo str_demo svm_world [] =
     (Inl DecodeError, \<lparr>self = svm_demo, trace = [Decode []]\<rparr>) \<and>
   nn_recognize pil_demo nn_run_demo nn_world [] =
     (Inl DecodeError, \<lparr>self = nn_demo, trace = [Decode []]\<rparr>)"
proof -
  have o: "image_open pil_demo [] = Inl DecodeError" by (simp add: pil_demo_def)
  then have "image_open pil_demo [] = Inl DecodeError \<or>
    (\<exists>opened. image_open pil_demo [] = Inr opened \<and> convert pil_demo opened ''L'' = Inl DecodeError)"
    by blast
  from recognize_decode_failure [OF this, of utils_demo svm_run_demo str_demo svm_world nn_run_demo nn_world] o
  show ?thesis by (simp add: svm_world_def nn_world_def)
qed

text \<open>
  C9: after any call of \<open>recognize\<close>, whether it returns or raises, the recognizer object is
  the one before the call: the session and the table of either recognizer are unchanged.
\<close>

theorem recognize_preserves_recognizer:
  "self (snd (legacy_recognize P U run str lw img)) = self lw \<and>
   clr (self (snd (legacy_recognize P U run str lw img))) = clr (self lw) \<and>
   legacy_table (self (snd (legacy_recognize P U run str lw img))) = legacy_table (self lw) \<and>
   self (snd (nn_recognize P' nrun nw img')) = self nw \<and>
   sess (self (snd (nn_recognize P' nrun nw img'))) = sess (self nw) \<and>
   nn_table (self (snd (nn_recognize P' nrun nw img'))) = nn_table (self nw)"
  by (simp add: legacy_recognize_self nn_recognize_self)

theorem recognize_preserves_recognizer_witness:
  "legacy_recognize pil_demo utils_demo svm_run_demo str_demo svm_world [10, 200] =
     (Inr ''ab'', \<lparr>self = svm_demo, trace = [Decode [10, 200], Run [0], Run [255]]\<rparr>) \<and>
   self (snd (legacy_recognize pil_demo utils_demo svm_run_demo str_demo svm_world [10, 200])) = svm_demo \<and>
   self (snd (nn_recognize pil_demo nn_run_demo nn_world [10, 200])) = nn_demo"
  using recognize_preserves_recognizer [of pil_demo utils_demo svm_run_demo str_demo svm_world
      "[10, 200]" pil_demo nn_run_demo nn_world "[10, 200]"] svm_demo_recognize
  by (simp add: svm_world_def nn_world_def)

text \<open>
  C8: the outcome of \<open>recognize\<close> depends on the world only through the recognizer (its
  session and table): two worlds with the same recognizer give the same outcome on the same
  bytes whatever happened before, and a second call on the same bytes right after a first one
  repeats its outcome.
\<close>

theorem recognize_deterministic:
  assumes "self lw' = self lw" and "self nw' = self nw"
  shows "fst (legacy_recognize P U run str lw' img) = fst (legacy_recognize P U run str lw img) \<and>
         fst (nn_recognize P' nrun nw' img') = fst (nn_recognize P' nrun nw img') \<and>
         fst (legacy_recognize P U run str (snd (legacy_recognize P U run str lw img)) img) =
           fst (legacy_recognize P U run str lw img) \<and>
         fst (nn_recognize P' nrun (snd (nn_recognize P' nrun nw img')) img') =
           fst (nn_recognize P' nrun nw img')"
  unfolding legacy_recognize_fst nn_recognize_fst legacy_recognize_self nn_recognize_self assms
  by simp

theorem recognize_deterministic_witness:
  "self (snd (legacy_recognize pil_demo utils_demo svm_run_demo str_demo svm_world [10, 200])) = self svm_world \<and>
   self (snd (nn_recognize pil_demo nn_run_demo nn_world [10, 200])) = self nn_world \<and>
   fst (legacy_recognize pil_demo utils_demo svm_run_demo str_demo svm_world [10, 200]) = Inr ''ab'' \<and>
   fst (legacy_recognize pil_demo utils_demo svm_run_demo str_demo
         (snd (legacy_recognize pil_demo utils_demo svm_run_demo str_demo svm_world [10, 200])) [10, 200]) = Inr ''ab'' \<and>
   fst (nn_recognize pil_demo nn_run_demo (snd (nn_recognize pil_demo nn_run_demo nn_world [10, 200])) [10, 200]) = Inr ''cz''"
proof -
  have a: "self (snd (legacy_recognize pil_demo utils_demo svm_run_demo str_demo svm_world [10, 200])) = self svm_world"
    by (rule legacy_recognize_self)
  have b: "self (snd (nn_recognize pil_demo nn_run_demo nn_world [10, 200])) = self nn_world"
    by (rule nn_recognize_self)
  from recognize_deterministic [OF a b, of pil_demo utils_demo svm_run_demo str_demo "[10, 200]"
      pil_demo nn_run_demo "[10, 200]"] a b
  show ?thesis by (simp add: svm_demo_recognize nn_demo_recognize)
qed

section \<open>What the segmentation recognizer returns\<close>

lemma join_labels_Inr:
  "join_labels str predicts = Inr s \<longleftrightarrow>
   (\<exists>labels. list_all2 (\<lambda>predict label. first_label predict = Inr label) predicts labels \<and>
      s = concat (map str labels))"
proof
  assume "join_labels str predicts = Inr s"
  then obtain strs where l: "list_comp (\<lambda>predict. (case first_label predict of Inl e \<Rightarrow> Inl e | Inr l \<Rightarrow> Inr (str l))) predicts = Inr strs"
    and s: "s = concat strs"
    by (auto simp: join_labels_def split: sum.splits)
  from l have a: "list_all2 (\<lambda>predict t. (case first_label predict of Inl e \<Rightarrow> Inl e | Inr l \<Rightarrow> Inr (str l)) = Inr t) predicts strs"
    by (simp add: list_comp_Inr)
  have "\<exists>labels. list_all2 (\<lambda>predict label. first_label predict = Inr label) predicts labels \<and> strs = map str labels"
    using a
  proof (induction rule: list_all2_induct)
    case Nil
    then show ?case by simp
  next
    case (Cons predict predicts t strs)
    from Cons.hyps(1) obtain l where l: "first_label predict = Inr l" "t = str l"
      by (auto split: sum.splits)
    from Cons.IH obtain labels
      where "list_all2 (\<lambda>predict label. first_label predict = Inr label) predicts labels" "strs = map str labels"
      by blast
    with l have "list_all2 (\<lambda>predict label. first_label predict = Inr label) (predict # predicts) (l # labels)
       \<and> t # strs = map str (l # labels)"
      by simp
    then show ?case by (rule exI)
  qed
  with s show "\<exists>labels. list_all2 (\<lambda>predict label. first_label predict = Inr label) predicts labels \<and>
      s = concat (map str labels)" by blast
next
  assume "\<exists>labels. list_all2 (\<lambda>predict label. first_label predict = Inr label) predicts labels \<and>
      s = concat (map str labels)"
  then obtain labels where a: "list_all2 (\<lambda>predict label. first_label predict = Inr label) predicts labels"
    and s: "s = concat (map str labels)" by blast
  from a have "list_all2 (\<lambda>predict t. (case first_label predict of Inl e \<Rightarrow> Inl e | Inr l \<Rightarrow> Inr (str l)) = Inr t) predicts (map str labels)"
    by (induction rule: list_all2_induct) simp_all
  then have "list_comp (\<lambda>predict. (case first_label predict of Inl e \<Rightarrow> Inl e | Inr l \<Rightarrow> Inr (str l))) predicts = Inr (map str labels)"
    by (simp add: list_comp_Inr)
  with s show "join_labels str predicts = Inr s" by (simp add: join_labels_def)
qed

lemma legacy_recognize_Inr:
  assumes "legacy_recognize P U run str w img = (Inr s, w')"
  shows "\<exists>opened gray img_rec parts labels.
           image_open P img = Inr opened \<and> convert P opened ''L'' = Inr gray \<and>
           point gray (legacy_table (self w)) ''1'' = Inr img_rec \<and>
           h_split U img_rec = Inr parts \<and>
           list_all2 (labelled P U run (clr (self w))) parts labels \<and>
           s = concat (map str labels)"
proof -
  from assms have "fst (legacy_recognize P U run str w img) = Inr s" by simp
  then obtain opened gray img_rec parts segments predicts
    where o: "image_open P img = Inr opened" "convert P opened ''L'' = Inr gray"
      "point gray (legacy_table (self w)) ''1'' = Inr img_rec" "h_split U img_rec = Inr parts"
    and sg: "list_comp (segment_data P U) parts = Inr segments"
    and pr: "list_comp (run (clr (self w))) (map np_array_data segments) = Inr predicts"
    and j: "join_labels str predicts = Inr s"
    unfolding legacy_recognize_fst by (auto split: sum.splits)
  from j obtain labels where fl: "list_all2 (\<lambda>predict label. first_label predict = Inr label) predicts labels"
    and s: "s = concat (map str labels)"
    unfolding join_labels_Inr by blast
  from sg have a: "list_all2 (\<lambda>part data. segment_data P U part = Inr data) parts segments"
    by (simp add: list_comp_Inr)
  from pr have b: "list_all2 (\<lambda>data predict. run (clr (self w)) (np_array_data data) = Inr predict) segments predicts"
    by (simp add: list_comp_Inr list_all2_map1)
  have "list_all2 (labelled P U run (clr (self w))) parts labels"
    using a b fl
    by (auto simp: list_all2_conv_all_nth labelled_def)
  with o s show ?thesis by blast
qed

lemma length_concat_singletons:
  "(\<forall>l \<in> set ls. length (f l) = 1) \<Longrightarrow> length (concat (map f ls)) = length ls"
  by (induction ls) simp_all

lemma set_concat_subset:
  "(\<forall>l \<in> set ls. set (f l) \<subseteq> A) \<Longrightarrow> set (concat (map f ls)) \<subseteq> A"
  by (induction ls) simp_all

lemma svm_const_recognize:
  "legacy_recognize pil_demo utils_demo (svm_run_const label) str_demo svm_world [10] =
     (Inr label, \<lparr>self = svm_demo, trace = [Decode [10], Run [0]]\<rparr>)"
proof -
  have p: "point \<lparr>mode = ''L'', pixels = [[10]]\<rparr> (legacy_table svm_demo) ''1'' =
           Inr \<lparr>mode = ''1'', pixels = [[0]]\<rparr>"
    by (simp add: svm_demo_def point_table)
  show ?thesis
    by (simp add: legacy_recognize_def pil_demo_def utils_demo_def svm_world_def p
      Let_def segment_data_def getdata_def np_array_data_def svm_run_const_def join_labels_def
      first_label_def str_demo_def)
qed

text \<open>
  C3, as stated, fails: the string form of a label need not be one character. With a model
  that labels the only segment of a one-pixel image \<open>''ab''\<close>, the call returns a string of
  length 2 for 1 segment.
\<close>

theorem legacy_recognize_length_counterexample:
  "legacy_recognize pil_demo utils_demo (svm_run_const ''ab'') str_demo svm_world [10] =
     (Inr ''ab'', \<lparr>self = svm_demo, trace = [Decode [10], Run [0]]\<rparr>) \<and>
   image_open pil_demo [10] = Inr \<lparr>mode = ''L'', pixels = [[10]]\<rparr> \<and>
   convert pil_demo \<lparr>mode = ''L'', pixels = [[10]]\<rparr> ''L'' = Inr \<lparr>mode = ''L'', pixels = [[10]]\<rparr> \<and>
   point \<lparr>mode = ''L'', pixels = [[10]]\<rparr> (legacy_table (self svm_world)) ''1'' =
     Inr \<lparr>mode = ''1'', pixels = [[0]]\<rparr> \<and>
   h_split utils_demo \<lparr>mode = ''1'', pixels = [[0]]\<rparr> = Inr [\<lparr>mode = ''1'', pixels = [[0]]\<rparr>] \<and>
   length ''ab'' \<noteq> length [\<lparr>mode = ''1'', pixels = [[0]]\<rparr>]"
proof -
  have "image_open pil_demo [10] = Inr \<lparr>mode = ''L'', pixels = [[10]]\<rparr>"
    by (simp add: pil_demo_def)
  moreover have "convert pil_demo \<lparr>mode = ''L'', pixels = [[10]]\<rparr> ''L'' =
      Inr \<lparr>mode = ''L'', pixels = [[10]]\<rparr>"
    by (simp add: pil_demo_def)
  moreover have "point \<lparr>mode = ''L'', pixels = [[10]]\<rparr> (legacy_table (self svm_world)) ''1'' =
      Inr \<lparr>mode = ''1'', pixels = [[0]]\<rparr>"
    by (simp add: svm_world_def svm_demo_def point_table)
  moreover have "h_split utils_demo \<lparr>mode = ''1'', pixels = [[0]]\<rparr> =
      Inr [\<lparr>mode = ''1'', pixels = [[0]]\<rparr>]"
    by (simp add: utils_demo_def)
  moreover have "length ''ab'' \<noteq> length [\<lparr>mode = ''1'', pixels = [[0::byte]]\<rparr>]"
    by simp
  ultimately show ?thesis using svm_const_recognize [of "''ab''"] by blast
qed

text \<open>
  C3, amended: a string that the segmentation recognizer returns is the concatenation, in the
  order of the segments of the horizontal split of the binarized image, of the string forms of
  the labels that the model predicts for the segments; its length is the number of segments
  provided the string form of every such label is one character long.
\<close>

theorem legacy_recognize_concat:
  assumes "legacy_recognize P U run str w img = (Inr s, w')"
  shows "\<exists>opened gray img_rec parts labels.
           image_open P img = Inr opened \<and> convert P opened ''L'' = Inr gray \<and>
           point gray (legacy_table (self w)) ''1'' = Inr img_rec \<and>
           h_split U img_rec = Inr parts \<and>
           list_all2 (labelled P U run (clr (self w))) parts labels \<and>
           s = concat (map str labels) \<and>
           ((\<forall>label \<in> set labels. length (str label) = 1) \<longrightarrow> length s = length parts)"
proof -
  from legacy_recognize_Inr [OF assms] obtain opened gray img_rec parts labels
    where o: "image_open P img = Inr opened" "convert P opened ''L'' = Inr gray"
      "point gray (legacy_table (self w)) ''1'' = Inr img_rec" "h_split U img_rec = Inr parts"
    and l: "list_all2 (labelled P U run (clr (self w))) parts labels"
    and s: "s = concat (map str labels)" by blast
  have "length s = length parts" if "\<forall>label \<in> set labels. length (str label) = 1"
    using length_concat_singletons [OF that] list_all2_lengthD [OF l] s by simp
  with o l s show ?thesis by blast
qed

theorem legacy_recognize_concat_witness:
  "legacy_recognize pil_demo utils_demo svm_run_demo str_demo svm_world [10, 200] =
     (Inr ''ab'', \<lparr>self = svm_demo, trace = [Decode [10, 200], Run [0], Run [255]]\<rparr>) \<and>
   h_split utils_demo \<lparr>mode = ''1'', pixels = [[0, 1]]\<rparr> =
     Inr [\<lparr>mode = ''1'', pixels = [[0]]\<rparr>, \<lparr>mode = ''1'', pixels = [[1]]\<rparr>] \<and>
   (\<exists>parts labels. h_split utils_demo \<lparr>mode = ''1'', pixels = [[0, 1]]\<rparr> = Inr parts \<and>
      list_all2 (labelled pil_demo utils_demo svm_run_demo (clr (self svm_world))) parts labels \<and>
      ''ab'' = concat (map str_demo labels))"
proof -
  from legacy_recognize_concat [OF svm_demo_recognize] obtain opened gray img_rec parts labels
    where o: "image_open pil_demo [10, 200] = Inr opened" "convert pil_demo opened ''L'' = Inr gray"
      "point gray (legacy_table (self svm_world)) ''1'' = Inr img_rec"
      "h_split utils_demo img_rec = Inr parts"
    and l: "list_all2 (labelled pil_demo utils_demo svm_run_demo (clr (self svm_world))) parts labels"
    and s: "''ab'' = concat (map str_demo labels)" by blast
  from o(1) have "opened = \<lparr>mode = ''L'', pixels = [[10, 200]]\<rparr>" by (simp add: pil_demo_def)
  with o(2) have "gray = \<lparr>mode = ''L'', pixels = [[10, 200]]\<rparr>" by (auto simp: pil_demo_def)
  with o(3) have "img_rec = \<lparr>mode = ''1'', pixels = [[0, 1]]\<rparr>"
    by (simp add: svm_world_def svm_demo_point)
  with o(4) l s have "\<exists>parts labels. h_split utils_demo \<lparr>mode = ''1'', pixels = [[0, 1]]\<rparr> = Inr parts \<and>
      list_all2 (labelled pil_demo utils_demo svm_run_demo (clr (self svm_world))) parts labels \<and>
      ''ab'' = concat (map str_demo labels)" by blast
  moreover have "h_split utils_demo \<lparr>mode = ''1'', pixels = [[0, 1]]\<rparr> =
     Inr [\<lparr>mode = ''1'', pixels = [[0]]\<rparr>, \<lparr>mode = ''1'', pixels = [[1]]\<rparr>]"
    by (simp add: utils_demo_def)
  ultimately show ?thesis using svm_demo_recognize by blast
qed

lemma nn_recognize_lowercase:
  assumes "nn_recognize P run w img = (Inr s, w')"
  shows "set s \<subseteq> set lowercase"
proof -
  from nn_recognize_Inr [OF assms] obtain out_tensor where "tensor_to_captcha out_tensor = Inr s"
    by blast
  from tensor_to_captcha_Inr [OF this] obtain ks
    where s: "s = concat (map (\<lambda>k. if k < 26 then [lowercase ! k] else []) ks)" by blast
  have "\<forall>k \<in> set ks. set (if k < 26 then [lowercase ! k] else []) \<subseteq> set lowercase"
    by (auto simp: lowercase_nth_mem)
  then show ?thesis unfolding s by (rule set_concat_subset)
qed

text \<open>
  C6, as stated, fails for the segmentation recognizer: it returns whatever the string forms
  of the model's labels are. With a model that labels a segment \<open>''A7''\<close> the call returns
  \<open>''A7''\<close>, which holds a character that is no lowercase letter.
\<close>

theorem legacy_recognize_lowercase_counterexample:
  "legacy_recognize pil_demo utils_demo (svm_run_const ''A7'') str_demo svm_world [10] =
     (Inr ''A7'', \<lparr>self = svm_demo, trace = [Decode [10], Run [0]]\<rparr>) \<and>
   svm_run_const ''A7'' (clr (self svm_world)) [0] = Inr [[''A7'']] \<and>
   CHR ''A'' \<in> set ''A7'' \<and> CHR ''A'' \<notin> set lowercase"
  by (simp add: svm_const_recognize svm_run_const_def lowercase_def)

text \<open>
  C6, amended: every character of a string that the whole-image recognizer returns is a
  lowercase Latin letter; a string that the segmentation recognizer returns is the
  concatenation of the string forms of the predicted labels, and all its characters are
  lowercase letters provided those string forms consist of lowercase letters.
\<close>

theorem recognize_lowercase:
  assumes "nn_recognize P nrun nw img = (Inr s, nw')"
    and "legacy_recognize P' U run str lw img' = (Inr t, lw')"
  shows "set s \<subseteq> set lowercase \<and>
         (\<exists>parts labels. list_all2 (labelled P' U run (clr (self lw))) parts labels \<and>
            t = concat (map str labels) \<and>
            ((\<forall>label \<in> set labels. set (str label) \<subseteq> set lowercase) \<longrightarrow> set t \<subseteq> set lowercase))"
proof -
  from legacy_recognize_Inr [OF assms(2)] obtain parts labels
    where l: "list_all2 (labelled P' U run (clr (self lw))) parts labels"
    and t: "t = concat (map str labels)" by blast
  have "set t \<subseteq> set lowercase" if "\<forall>label \<in> set labels. set (str label) \<subseteq> set lowercase"
    unfolding t using that by (rule set_concat_subset)
  with l t nn_recognize_lowercase [OF assms(1)] show ?thesis by blast
qed

theorem recognize_lowercase_witness:
  "nn_recognize pil_demo nn_run_demo nn_world [10, 200] =
     (Inr ''cz'', \<lparr>self = nn_demo, trace = [Decode [10, 200], Run [[[[0, 1]]]]]\<rparr>) \<and>
   legacy_recognize pil_demo utils_demo svm_run_demo str_demo svm_world [10, 200] =
     (Inr ''ab'', \<lparr>self = svm_demo, trace = [Decode [10, 200], Run [0], Run [255]]\<rparr>) \<and>
   set ''cz'' \<subseteq> set lowercase \<and> set ''ab'' \<subseteq> set lowercase"
proof -
  from recognize_lowercase [OF nn_demo_recognize svm_demo_recognize]
  have "set ''cz'' \<subseteq> set lowercase" by blast
  moreover have "set ''ab'' \<subseteq> set lowercase" by (simp add: lowercase_def)
  ultimately show ?thesis using nn_demo_recognize svm_demo_recognize by blast
qed

end
